theory Spec2Isabelle
  imports Main
begin

section \<open>The conversation store (server/db/queries)\<close>

text \<open>
  The \<^verbatim>\<open>Message\<close> of the \<^verbatim>\<open>ai\<close> package, with the fields the handlers read:
  \<^verbatim>\<open>role\<close>, \<^verbatim>\<open>parts\<close> (each part kept as its serialised text) and the flat
  \<^verbatim>\<open>content\<close>.
\<close>

record message =
  role :: string
  parts :: "string list"
  content :: string

text \<open>
  The two tables, with the columns that \<^verbatim>\<open>upsertChat\<close> writes. The rows of a table
  are kept in insertion order. Columns that only the schema fills (generated keys,
  timestamps) are not part of the model: the schema is not among the sources.
\<close>

record chat_row =
  id_chat :: string
  userId :: string
  title :: string

record message_row =
  chatId :: string
  row_role :: string
  row_parts :: "string list"
  order :: nat

record db =
  chats :: "chat_row list"
  messages :: "message_row list"

text \<open>
  What a call can raise: the \<^verbatim>\<open>Error("Chat ID already exists under a different user")\<close>
  thrown by \<^verbatim>\<open>upsertChat\<close> itself, and the rejection of an insert by the database
  when the key of the new row is already taken.
\<close>

datatype error = OwnershipConflict | UniqueViolation

subsection \<open>Queries and statements\<close>

text \<open>\<^verbatim>\<open>findFirst({ where })\<close>: the first row that satisfies the condition, if any.\<close>

definition findFirst :: "('a \<Rightarrow> bool) \<Rightarrow> 'a list \<Rightarrow> 'a option" where
  "findFirst p rows = (case filter p rows of [] \<Rightarrow> None | r # _ \<Rightarrow> Some r)"

text \<open>
  \<^verbatim>\<open>db.insert(chats).values(row)\<close>. Whether \<^verbatim>\<open>chats.id\<close> is declared a unique
  (primary) key is fixed by the schema, which is not among the sources, so it is the
  parameter \<open>pk\<close>: with a key the database rejects a second row of the same id, without
  one it appends the row.
\<close>

definition insert_chats :: "bool \<Rightarrow> db \<Rightarrow> chat_row \<Rightarrow> error + db" where
  "insert_chats pk d row =
     (if pk \<and> id_chat row \<in> set (map id_chat (chats d)) then Inl UniqueViolation
      else Inr (d\<lparr>chats := chats d @ [row]\<rparr>))"

text \<open>\<^verbatim>\<open>db.update(chats).set({ title }).where(eq(chats.id, chatId))\<close>\<close>

definition update_title :: "db \<Rightarrow> string \<Rightarrow> string \<Rightarrow> db" where
  "update_title d cid t =
     d\<lparr>chats := map (\<lambda>r. if id_chat r = cid then r\<lparr>title := t\<rparr> else r) (chats d)\<rparr>"

text \<open>\<^verbatim>\<open>db.delete(messages).where(eq(messages.chatId, chatId))\<close>\<close>

definition delete_messages :: "db \<Rightarrow> string \<Rightarrow> db" where
  "delete_messages d cid = d\<lparr>messages := filter (\<lambda>m. chatId m \<noteq> cid) (messages d)\<rparr>"

text \<open>
  \<^verbatim>\<open>opts.messages.map((msg, i) => ({ chatId, role: msg.role, parts: msg.parts, order: i }))\<close>,
  the rows numbered from \<open>i\<close> on.
\<close>

fun message_rows :: "string \<Rightarrow> nat \<Rightarrow> message list \<Rightarrow> message_row list" where
  "message_rows cid i [] = []"
| "message_rows cid i (msg # msgs) =
     \<lparr>chatId = cid, row_role = role msg, row_parts = parts msg, order = i\<rparr>
       # message_rows cid (Suc i) msgs"

text \<open>The guarded \<^verbatim>\<open>db.insert(messages).values(...)\<close> that ends \<^verbatim>\<open>upsertChat\<close>.\<close>

definition insert_messages :: "db \<Rightarrow> string \<Rightarrow> message list \<Rightarrow> db" where
  "insert_messages d cid msgs =
     (if length msgs > 0 then d\<lparr>messages := messages d @ message_rows cid 0 msgs\<rparr> else d)"

subsection \<open>upsertChat, getChat\<close>

text \<open>
  Both raises of \<^verbatim>\<open>upsertChat\<close> come before its first write that succeeds, so the store
  at a raise is the store it was called on, and the result is either the error or the
  store after the call.
\<close>

definition upsertChat ::
  "bool \<Rightarrow> db \<Rightarrow> string \<Rightarrow> string \<Rightarrow> string \<Rightarrow> message list \<Rightarrow> error + db" where
  "upsertChat pk d uid cid t msgs =
     (case findFirst (\<lambda>r. id_chat r = cid \<and> userId r = uid) (chats d) of
        None \<Rightarrow>
          (case insert_chats pk d \<lparr>id_chat = cid, userId = uid, title = t\<rparr> of
             Inl e \<Rightarrow> Inl e
           | Inr d1 \<Rightarrow> Inr (insert_messages d1 cid msgs))
      | Some chat \<Rightarrow>
          if userId chat \<noteq> uid then Inl OwnershipConflict
          else
            let d1 = (if title chat \<noteq> t then update_title d cid t else d);
                d2 = delete_messages d1 cid
            in Inr (insert_messages d2 cid msgs))"

text \<open>
  \<^verbatim>\<open>getChat\<close>: \<^verbatim>\<open>null\<close> is \<open>None\<close>; otherwise the chat row with the rows of
  \<^verbatim>\<open>messages\<close> of that \<^verbatim>\<open>chatId\<close>, ascending by \<^verbatim>\<open>order\<close>.
\<close>

definition getChat :: "db \<Rightarrow> string \<Rightarrow> string \<Rightarrow> (chat_row \<times> message_row list) option" where
  "getChat d uid cid =
     (case findFirst (\<lambda>r. id_chat r = cid \<and> userId r = uid) (chats d) of
        None \<Rightarrow> None
      | Some chat \<Rightarrow>
          Some (chat, sort_key order (filter (\<lambda>m. chatId m = cid) (messages d))))"

section \<open>The chat route (app/api/chat/route)\<close>

subsection \<open>Request, stream and response\<close>

text \<open>The JSON body of the request: \<^verbatim>\<open>{ messages, chatId, isNewChat }\<close>.\<close>

record body =
  messages_b :: "message list"
  chatId_b :: string
  isNewChat :: bool

text \<open>
  What one run of \<^verbatim>\<open>streamText\<close> hands to the route: the parts it forwards to the data
  stream (text deltas and tool events, each kept as its text) and the
  \<^verbatim>\<open>response.messages\<close> passed to \<^verbatim>\<open>onFinish\<close>. The language model is outside the
  program, so the run is a parameter \<open>model\<close> of the handler.
\<close>

record generation =
  stream_parts :: "string list"
  response_messages :: "message list"

datatype data_event = NEW_CHAT_CREATED string

text \<open>
  A frame of the data stream: a \<^verbatim>\<open>writeData\<close> event, a forwarded part of the model's
  stream, or the error text returned by \<^verbatim>\<open>onError\<close>.
\<close>

datatype frame = Data data_event | Part string | ErrorText string

datatype response = Status nat string | Streaming "frame list"

text \<open>
  Modelled from the spec: the data stream of the \<^verbatim>\<open>ai\<close> package is not among the
  sources. By section 4.5 of the specification it carries the structured events
  written to it and the model's stream merged into it, in the order in which the
  route hands them over; the response is the stream that \<^verbatim>\<open>execute\<close> fills.
\<close>

definition writeData :: "frame list \<Rightarrow> data_event \<Rightarrow> frame list" where
  "writeData dataStream ev = dataStream @ [Data ev]"

definition mergeIntoDataStream :: "generation \<Rightarrow> frame list \<Rightarrow> frame list" where
  "mergeIntoDataStream result dataStream = dataStream @ map Part (stream_parts result)"

text \<open>
  The \<^verbatim>\<open>execute\<close> callback given to \<^verbatim>\<open>createDataStreamResponse\<close>: the new-chat event
  when the request said \<^verbatim>\<open>isNewChat\<close>, then the model's stream merged in.
\<close>

definition execute :: "bool \<Rightarrow> string \<Rightarrow> generation \<Rightarrow> frame list \<Rightarrow> frame list" where
  "execute isNew cid result dataStream =
     (let ds1 = (if isNew then writeData dataStream (NEW_CHAT_CREATED cid) else dataStream)
      in mergeIntoDataStream result ds1)"

definition createDataStreamResponse :: "(frame list \<Rightarrow> frame list) \<Rightarrow> response" where
  "createDataStreamResponse exec = Streaming (exec [])"

subsection \<open>POST\<close>

text \<open>
  The handler up to the response it returns, with the store after it. \<open>session\<close> is the
  id of the signed-in user, \<open>None\<close> when \<^verbatim>\<open>auth()\<close> gives no session. An exception of
  \<^verbatim>\<open>upsertChat\<close> is not caught by the handler and is its result (\<open>Inl\<close>). The telemetry
  trace is outside the model.
\<close>

definition POST ::
  "bool \<Rightarrow> (message list \<Rightarrow> generation) \<Rightarrow> string option \<Rightarrow> body \<Rightarrow> db
     \<Rightarrow> (error + response) \<times> db" where
  "POST pk model session b d =
     (case session of
        None \<Rightarrow> (Inr (Status 401 ''Unauthorized''), d)
      | Some uid \<Rightarrow>
          if messages_b b = [] then (Inr (Status 400 ''No messages provided''), d)
          else
            let streaming =
                  createDataStreamResponse
                    (execute (isNewChat b) (chatId_b b) (model (messages_b b)))
            in
              if isNewChat b then
                (case upsertChat pk d uid (chatId_b b)
                        (take 50 (content (last (messages_b b))) @ ''...'') (messages_b b) of
                   Inl e \<Rightarrow> (Inl e, d)
                 | Inr d1 \<Rightarrow> (Inr streaming, d1))
              else
                (case findFirst (\<lambda>r. id_chat r = chatId_b b) (chats d) of
                   None \<Rightarrow> (Inr (Status 404 ''Chat not found or unauthorized''), d)
                 | Some chat \<Rightarrow>
                     if userId chat \<noteq> uid
                     then (Inr (Status 404 ''Chat not found or unauthorized''), d)
                     else (Inr streaming, d)))"

text \<open>The frames a result of the handler puts on the wire: none unless it is a stream.\<close>

fun frames_of :: "error + response \<Rightarrow> frame list" where
  "frames_of (Inr (Streaming fs)) = fs"
| "frames_of _ = []"

fun is_new_chat_event :: "frame \<Rightarrow> bool" where
  "is_new_chat_event (Data (NEW_CHAT_CREATED _)) = True"
| "is_new_chat_event _ = False"

fun is_model_part :: "frame \<Rightarrow> bool" where
  "is_model_part (Part _) = True"
| "is_model_part _ = False"

subsection \<open>The end of a turn\<close>

text \<open>
  The state of a streaming response when its generation has finished: the store as it is
  then, the lines written with \<^verbatim>\<open>console.error\<close> (a label, empty when there is none,
  and the error), and the frames delivered so far.
\<close>

record turn =
  store :: db
  console :: "(string \<times> error) list"
  stream :: "frame list"

text \<open>
  \<^verbatim>\<open>onFinish\<close> of the route: it awaits \<^verbatim>\<open>upsertChat\<close> without catching, so a failure
  of the write is the rejection of \<^verbatim>\<open>onFinish\<close> itself. \<^verbatim>\<open>appendResponseMessages\<close>
  belongs to the \<^verbatim>\<open>ai\<close> package and is a parameter.
\<close>

definition onFinish ::
  "bool \<Rightarrow> (message list \<Rightarrow> message list \<Rightarrow> message list) \<Rightarrow> string \<Rightarrow> string
     \<Rightarrow> message list \<Rightarrow> generation \<Rightarrow> db \<Rightarrow> error + db" where
  "onFinish pk appendResponseMessages uid cid msgs result d =
     (let updatedMessages = appendResponseMessages msgs (response_messages result)
      in if msgs = [] then Inr d
         else upsertChat pk d uid cid (take 50 (content (last msgs)) @ ''...'') updatedMessages)"

text \<open>\<^verbatim>\<open>onError\<close> of the route: log the error, answer with a fixed text.\<close>

definition onError :: "error \<Rightarrow> (string \<times> error) list \<Rightarrow> string \<times> (string \<times> error) list" where
  "onError e cons = (''Oops, an error occurred!'', cons @ [([], e)])"

text \<open>
  Modelled from the spec: what the \<^verbatim>\<open>ai\<close> package does when \<^verbatim>\<open>onFinish\<close> rejects is
  not among the sources. By sections 4.5 and 7 of the specification the frames already
  delivered stay delivered, the error goes to the route's \<^verbatim>\<open>onError\<close>, and the text it
  returns is sent as a single error frame.
\<close>

definition finish_turn ::
  "bool \<Rightarrow> (message list \<Rightarrow> message list \<Rightarrow> message list) \<Rightarrow> string \<Rightarrow> string
     \<Rightarrow> message list \<Rightarrow> generation \<Rightarrow> turn \<Rightarrow> turn" where
  "finish_turn pk appendResponseMessages uid cid msgs result ts =
     (case onFinish pk appendResponseMessages uid cid msgs result (store ts) of
        Inr d' \<Rightarrow> ts\<lparr>store := d'\<rparr>
      | Inl e \<Rightarrow>
          (case onError e (console ts) of
             (reply, cons) \<Rightarrow> ts\<lparr>console := cons, stream := stream ts @ [ErrorText reply]\<rparr>))"

subsection \<open>The day-1 route\<close>

text \<open>
  \<^verbatim>\<open>messages[messages.length - 1]?.content?.slice(0, 100) || "New Chat"\<close>: the empty
  string is falsy.
\<close>

definition chatTitle :: "message list \<Rightarrow> string" where
  "chatTitle msgs =
     (if msgs = [] \<or> take 100 (content (last msgs)) = [] then ''New Chat''
      else take 100 (content (last msgs)))"

text \<open>
  \<^verbatim>\<open>onFinish\<close> of the day-1 route: the write is not awaited and its failure is caught
  and logged by \<^verbatim>\<open>.catch\<close>, so the callback itself never fails and never touches the
  stream.
\<close>

definition onFinish_day1 ::
  "bool \<Rightarrow> (message list \<Rightarrow> message list \<Rightarrow> message list) \<Rightarrow> string \<Rightarrow> string
     \<Rightarrow> message list \<Rightarrow> generation \<Rightarrow> turn \<Rightarrow> turn" where
  "onFinish_day1 pk appendResponseMessages uid currentChatId msgs result ts =
     (let updatedMessages = appendResponseMessages msgs (response_messages result)
      in case upsertChat pk (store ts) uid currentChatId (chatTitle msgs) updatedMessages of
           Inr d' \<Rightarrow> ts\<lparr>store := d'\<rparr>
         | Inl e \<Rightarrow> ts\<lparr>console := console ts @ [(''Failed to save chat:'', e)]\<rparr>)"

section \<open>The tools\<close>

subsection \<open>scrapePages\<close>

text \<open>
  The outcome of crawling one page: \<^verbatim>\<open>{ success: true, data }\<close> or
  \<^verbatim>\<open>{ success: false, error }\<close>. A field that is absent reads as \<open>None\<close>.
\<close>

datatype crawl_response = CrawlSuccess string | CrawlError string

fun crawl_success :: "crawl_response \<Rightarrow> bool" where
  "crawl_success (CrawlSuccess _) = True"
| "crawl_success (CrawlError _) = False"

fun crawl_data :: "crawl_response \<Rightarrow> string option" where
  "crawl_data (CrawlSuccess d) = Some d"
| "crawl_data (CrawlError _) = None"

fun crawl_error :: "crawl_response \<Rightarrow> string option" where
  "crawl_error (CrawlSuccess _) = None"
| "crawl_error (CrawlError e) = Some e"

record bulk_crawl_response =
  success :: bool
  error_b :: "string option"
  results :: "(string \<times> crawl_response) list"

text \<open>
  Modelled from the spec: \<^verbatim>\<open>bulkCrawlWebsites\<close> (the module \<^verbatim>\<open>scraper\<close>) is not among
  the sources. By section 4.3 of the specification every URL is fetched, the overall
  \<^verbatim>\<open>success\<close> is false if at least one URL failed, and all per-URL outcomes are returned
  in either case. The fetch of one page is the parameter \<open>crawlWebsite\<close>; the wording of
  the overall error is not fixed by the specification.
\<close>

definition bulkCrawlWebsites ::
  "(string \<Rightarrow> crawl_response) \<Rightarrow> string list \<Rightarrow> bulk_crawl_response" where
  "bulkCrawlWebsites crawlWebsite urls =
     (let rs = map (\<lambda>u. (u, crawlWebsite u)) urls
      in if list_all (\<lambda>(u, result). crawl_success result) rs
         then \<lparr>success = True, error_b = None, results = rs\<rparr>
         else \<lparr>success = False, error_b = Some ''Failed to crawl some websites'', results = rs\<rparr>)"

text \<open>What the tool hands to the model: \<^verbatim>\<open>{ error?, results: [{ url, success, data }] }\<close>.\<close>

record scraped =
  url :: string
  success_s :: bool
  data :: "string option"

record scrape_output =
  error_o :: "string option"
  results_o :: "scraped list"

text \<open>The \<^verbatim>\<open>execute\<close> of the tool \<^verbatim>\<open>scrapePages\<close>.\<close>

definition scrapePages :: "(string \<Rightarrow> crawl_response) \<Rightarrow> string list \<Rightarrow> scrape_output" where
  "scrapePages crawlWebsite urls =
     (let res = bulkCrawlWebsites crawlWebsite urls
      in if \<not> success res then
           \<lparr>error_o = error_b res,
            results_o = map (\<lambda>(u, result).
                \<lparr>url = u, success_s = crawl_success result,
                 data = (if crawl_success result then crawl_data result else crawl_error result)\<rparr>)
              (results res)\<rparr>
         else
           \<lparr>error_o = None,
            results_o = map (\<lambda>(u, result).
                \<lparr>url = u, success_s = crawl_success result, data = crawl_data result\<rparr>)
              (results res)\<rparr>)"

subsection \<open>The reasoning loop\<close>

text \<open>
  One invocation of the model: the final text, or the text produced so far together
  with the tool calls it requests.
\<close>

datatype step = FinalText string | ToolCalls string "string list"

text \<open>The \<^verbatim>\<open>maxSteps: 10\<close> that the route passes to \<^verbatim>\<open>streamText\<close>.\<close>

definition maxSteps :: nat where
  "maxSteps = 10"

text \<open>
  Modelled from the spec: the loop inside \<^verbatim>\<open>streamText\<close> belongs to the \<^verbatim>\<open>ai\<close>
  package and is not among the sources. By section 4.1 of the specification it runs up
  to \<open>n\<close> steps; in a step the model either gives its final text, which ends the loop,
  or requests tool calls, which are executed (\<open>tools\<close> adds their results to the
  context) before the model is invoked again; when the ceiling is reached the last
  partial output is the final one. The result is the text and the number of
  invocations of the model.
\<close>

fun streamText ::
  "nat \<Rightarrow> ('c \<Rightarrow> step) \<Rightarrow> ('c \<Rightarrow> string list \<Rightarrow> 'c) \<Rightarrow> 'c \<Rightarrow> string \<times> nat" where
  "streamText 0 model tools ctx = ([], 0)"
| "streamText (Suc n) model tools ctx =
     (case model ctx of
        FinalText answer \<Rightarrow> (answer, 1)
      | ToolCalls sofar calls \<Rightarrow>
          if n = 0 then (sofar, 1)
          else (case streamText n model tools (tools ctx calls) of
                  (answer, k) \<Rightarrow> (answer, Suc k)))"

section \<open>Invariant, repeated calls and sample values\<close>

text \<open>Every row of \<^verbatim>\<open>messages\<close> belongs to a row of \<^verbatim>\<open>chats\<close> (the foreign key).\<close>

definition messages_owned :: "db \<Rightarrow> bool" where
  "messages_owned d = (\<forall>m \<in> set (messages d). chatId m \<in> set (map id_chat (chats d)))"

text \<open>
  Two calls of \<^verbatim>\<open>upsertChat\<close> in succession with the same arguments; after a call that
  raised, the second call runs on the store as it was.
\<close>

definition upsertChat_twice ::
  "bool \<Rightarrow> db \<Rightarrow> string \<Rightarrow> string \<Rightarrow> string \<Rightarrow> message list \<Rightarrow> error + db" where
  "upsertChat_twice pk d uid cid t msgs =
     (case upsertChat pk d uid cid t msgs of
        Inl e \<Rightarrow> upsertChat pk d uid cid t msgs
      | Inr d1 \<Rightarrow> upsertChat pk d1 uid cid t msgs)"

definition msg_hello :: message where
  "msg_hello = \<lparr>role = ''user'', parts = [''Hello''], content = ''Hello''\<rparr>"

definition msg_answer :: message where
  "msg_answer = \<lparr>role = ''assistant'', parts = [''Hi there''], content = ''Hi there''\<rparr>"

definition db_empty :: db where
  "db_empty = \<lparr>chats = [], messages = []\<rparr>"

definition db_alice :: db where
  "db_alice =
     \<lparr>chats = [\<lparr>id_chat = ''c1'', userId = ''alice'', title = ''Old''\<rparr>],
      messages = [\<lparr>chatId = ''c1'', row_role = ''user'', row_parts = [''Old''], order = 0\<rparr>]\<rparr>"

definition db_bob :: db where
  "db_bob =
     \<lparr>chats = [\<lparr>id_chat = ''c1'', userId = ''bob'', title = ''Hello...''\<rparr>],
      messages = [\<lparr>chatId = ''c1'', row_role = ''user'', row_parts = [''Hello''], order = 0\<rparr>]\<rparr>"

definition db_alice_bob :: db where
  "db_alice_bob =
     \<lparr>chats = [\<lparr>id_chat = ''c1'', userId = ''alice'', title = ''Old''\<rparr>,
               \<lparr>id_chat = ''c1'', userId = ''bob'', title = ''Hello...''\<rparr>],
      messages = [\<lparr>chatId = ''c1'', row_role = ''user'', row_parts = [''Old''], order = 0\<rparr>,
                  \<lparr>chatId = ''c1'', row_role = ''user'', row_parts = [''Hello''], order = 0\<rparr>]\<rparr>"

definition model_hi :: "message list \<Rightarrow> generation" where
  "model_hi msgs = \<lparr>stream_parts = [''Hi'', '' there''], response_messages = [msg_answer]\<rparr>"

definition turn_alice :: turn where
  "turn_alice = \<lparr>store = db_alice, console = [], stream = [Part ''Hi'', Part '' there'']\<rparr>"

definition body_other :: body where
  "body_other = \<lparr>messages_b = [msg_hello], chatId_b = ''c1'', isNewChat = False\<rparr>"

definition body_other_empty :: body where
  "body_other_empty = \<lparr>messages_b = [], chatId_b = ''c1'', isNewChat = False\<rparr>"

definition body_new :: body where
  "body_new = \<lparr>messages_b = [msg_hello], chatId_b = ''c2'', isNewChat = True\<rparr>"

definition crawl_sample :: "string \<Rightarrow> crawl_response" where
  "crawl_sample u =
     (if u = ''https://valid.example'' then CrawlSuccess ''# Valid'' else CrawlError ''timeout'')"

text \<open>A model that asks for a tool call at every step; the context counts the steps.\<close>

fun model_always_tools :: "nat \<Rightarrow> step" where
  "model_always_tools n = ToolCalls (replicate n CHR ''x'') [''searchWeb'']"

fun tools_count :: "nat \<Rightarrow> string list \<Rightarrow> nat" where
  "tools_count n calls = Suc n"

lemmas store_defs = upsertChat_def getChat_def findFirst_def insert_chats_def insert_messages_def
  update_title_def delete_messages_def

section \<open>Properties of the store\<close>

subsection \<open>Auxiliary facts\<close>

lemma findFirst_None: "findFirst p rows = None \<longleftrightarrow> (\<forall>r \<in> set rows. \<not> p r)"
proof (cases "filter p rows")
  case Nil
  then show ?thesis by (simp add: findFirst_def filter_empty_conv)
next
  case (Cons x xs)
  then have "x \<in> set (filter p rows)" by simp
  then have "x \<in> set rows \<and> p x" by simp
  with Cons show ?thesis by (auto simp: findFirst_def)
qed

lemma findFirst_Some: "findFirst p rows = Some r \<Longrightarrow> p r \<and> r \<in> set rows"
proof -
  assume "findFirst p rows = Some r"
  then obtain rest where "filter p rows = r # rest"
    by (auto simp: findFirst_def split: list.splits)
  then have "r \<in> set (filter p rows)" by simp
  then show ?thesis by simp
qed

lemma findFirst_append:
  "findFirst p (xs @ ys) = (case findFirst p xs of None \<Rightarrow> findFirst p ys | Some r \<Rightarrow> Some r)"
  by (auto simp: findFirst_def split: list.splits)

lemma length_message_rows: "length (message_rows cid i msgs) = length msgs"
  by (induction msgs arbitrary: i) auto

lemma nth_message_rows:
  "k < length msgs \<Longrightarrow> message_rows cid i msgs ! k =
     \<lparr>chatId = cid, row_role = role (msgs ! k), row_parts = parts (msgs ! k), order = i + k\<rparr>"
proof (induction msgs arbitrary: i k)
  case Nil
  then show ?case by simp
next
  case (Cons msg msgs)
  then show ?case by (cases k) auto
qed

lemma chatId_message_rows: "m \<in> set (message_rows cid i msgs) \<Longrightarrow> chatId m = cid"
  by (induction msgs arbitrary: i) auto

lemma order_message_rows: "map order (message_rows cid i msgs) = [i ..< i + length msgs]"
  by (induction msgs arbitrary: i) (auto simp: upt_rec)

lemma filter_eq_message_rows:
  "filter (\<lambda>m. chatId m = cid) (message_rows cid i msgs) = message_rows cid i msgs"
  by (induction msgs arbitrary: i) auto

lemma filter_neq_message_rows:
  "filter (\<lambda>m. chatId m \<noteq> cid) (message_rows cid i msgs) = []"
  by (induction msgs arbitrary: i) auto

lemma sort_message_rows: "sort_key order (message_rows cid i msgs) = message_rows cid i msgs"
  by (rule sort_key_id_if_sorted) (simp add: order_message_rows)

lemma messages_insert_messages:
  "messages (insert_messages d cid msgs) = messages d @ message_rows cid 0 msgs"
  by (cases msgs) (auto simp: insert_messages_def)

lemma chats_insert_messages: "chats (insert_messages d cid msgs) = chats d"
  by (auto simp: insert_messages_def)

lemma upsertChat_create:
  assumes "\<forall>r \<in> set (chats d). id_chat r = cid \<longrightarrow> userId r \<noteq> uid"
  shows "upsertChat pk d uid cid t msgs =
     (case insert_chats pk d \<lparr>id_chat = cid, userId = uid, title = t\<rparr> of
        Inl e \<Rightarrow> Inl e
      | Inr d1 \<Rightarrow> Inr (insert_messages d1 cid msgs))"
proof -
  from assms have "findFirst (\<lambda>r. id_chat r = cid \<and> userId r = uid) (chats d) = None"
    by (auto simp: findFirst_None)
  then show ?thesis by (simp add: upsertChat_def)
qed

lemma upsertChat_replace:
  assumes "findFirst (\<lambda>r. id_chat r = cid \<and> userId r = uid) (chats d) = Some chat"
  shows "upsertChat pk d uid cid t msgs =
     Inr (insert_messages
            (delete_messages (if title chat \<noteq> t then update_title d cid t else d) cid) cid msgs)"
proof -
  from findFirst_Some [OF assms] have "userId chat = uid" by simp
  with assms show ?thesis by (simp add: upsertChat_def Let_def)
qed

lemma findFirst_map_title:
  assumes "findFirst (\<lambda>r. id_chat r = cid \<and> userId r = uid) rows = Some chat"
  shows "findFirst (\<lambda>r. id_chat r = cid \<and> userId r = uid)
           (map (\<lambda>r. if id_chat r = cid then r\<lparr>title := t\<rparr> else r) rows) = Some (chat\<lparr>title := t\<rparr>)"
  using assms
proof (induction rows)
  case Nil
  then show ?case by (simp add: findFirst_def)
next
  case (Cons r rows)
  then show ?case by (auto simp: findFirst_def split: if_splits)
qed

lemma owned_after_replace:
  assumes "findFirst (\<lambda>r. id_chat r = cid \<and> userId r = uid) (chats d) = Some chat"
  shows "findFirst (\<lambda>r. id_chat r = cid \<and> userId r = uid)
           (chats (if title chat \<noteq> t then update_title d cid t else d)) = Some (chat\<lparr>title := t\<rparr>)"
proof (cases "title chat = t")
  case True
  then have "chat\<lparr>title := t\<rparr> = chat" by simp
  with True assms show ?thesis by simp
next
  case False
  with findFirst_map_title [OF assms] show ?thesis by (simp add: update_title_def)
qed

lemma delete_insert_messages:
  "delete_messages (insert_messages d0 cid msgs) cid = delete_messages d0 cid"
  by (simp add: insert_messages_def delete_messages_def filter_neq_message_rows)

lemma delete_messages_none:
  assumes "\<forall>m \<in> set (messages d0). chatId m \<noteq> cid"
  shows "delete_messages d0 cid = d0"
proof -
  from assms have "filter (\<lambda>m. chatId m \<noteq> cid) (messages d0) = messages d0"
    by (simp add: filter_id_conv)
  then show ?thesis by (simp add: delete_messages_def)
qed

lemma getChat_insert_messages:
  assumes "findFirst (\<lambda>r. id_chat r = cid \<and> userId r = uid) (chats d0) = Some chat'"
    and "\<forall>m \<in> set (messages d0). chatId m \<noteq> cid"
  shows "getChat (insert_messages d0 cid msgs) uid cid = Some (chat', message_rows cid 0 msgs)"
proof -
  from assms(2) have "filter (\<lambda>m. chatId m = cid) (messages d0) = []"
    by (simp add: filter_empty_conv)
  then have "filter (\<lambda>m. chatId m = cid) (messages (insert_messages d0 cid msgs))
      = message_rows cid 0 msgs"
    by (simp add: messages_insert_messages filter_eq_message_rows)
  with assms(1) show ?thesis
    by (simp add: getChat_def chats_insert_messages sort_message_rows)
qed

lemma upsertChat_again:
  assumes "findFirst (\<lambda>r. id_chat r = cid \<and> userId r = uid) (chats d0) = Some chat'"
    and "title chat' = t"
  shows "upsertChat pk (insert_messages d0 cid msgs) uid cid t msgs
     = Inr (insert_messages (delete_messages d0 cid) cid msgs)"
proof -
  from assms(1)
  have "findFirst (\<lambda>r. id_chat r = cid \<and> userId r = uid) (chats (insert_messages d0 cid msgs))
      = Some chat'"
    by (simp add: chats_insert_messages)
  from upsertChat_replace [OF this, of pk t msgs] assms(2) show ?thesis
    by (simp add: delete_insert_messages)
qed

text \<open>
  The ownership guard of \<^verbatim>\<open>upsertChat\<close> is never taken: the row it inspects was
  selected by the caller's own user id.
\<close>

lemma upsertChat_never_OwnershipConflict:
  "upsertChat pk d uid cid t msgs \<noteq> Inl OwnershipConflict"
proof (cases "findFirst (\<lambda>r. id_chat r = cid \<and> userId r = uid) (chats d)")
  case None
  then show ?thesis
    by (simp add: upsertChat_def insert_chats_def)
next
  case (Some chat)
  from findFirst_Some [OF Some] have "userId chat = uid" by simp
  with Some show ?thesis by (simp add: upsertChat_def Let_def)
qed

text \<open>
  The invariant \<open>messages_owned\<close> holds of the empty store and is kept by every call
  of \<^verbatim>\<open>upsertChat\<close> that returns.
\<close>

lemma messages_owned_empty: "messages_owned db_empty"
  by (simp add: messages_owned_def db_empty_def)

lemma ids_update_title: "map id_chat (chats (update_title d cid t)) = map id_chat (chats d)"
  by (simp add: update_title_def comp_def if_distrib cong: map_cong)

lemma upsertChat_messages_owned:
  assumes own: "messages_owned d" and up: "upsertChat pk d uid cid t msgs = Inr d'"
  shows "messages_owned d'"
proof (cases "findFirst (\<lambda>r. id_chat r = cid \<and> userId r = uid) (chats d)")
  case None
  with up have d': "d' = insert_messages
      (d\<lparr>chats := chats d @ [\<lparr>id_chat = cid, userId = uid, title = t\<rparr>]\<rparr>) cid msgs"
    by (auto simp: upsertChat_def insert_chats_def split: if_splits)
  show ?thesis
    using own unfolding d' messages_owned_def
    by (auto simp: messages_insert_messages chats_insert_messages dest: chatId_message_rows)
next
  case (Some chat)
  let ?d1 = "if title chat \<noteq> t then update_title d cid t else d"
  from upsertChat_replace [OF Some, of pk t msgs] up
  have d': "d' = insert_messages (delete_messages ?d1 cid) cid msgs" by simp
  from findFirst_Some [OF Some] have "cid \<in> set (map id_chat (chats d))" by auto
  moreover have ids: "map id_chat (chats ?d1) = map id_chat (chats d)"
    by (simp add: ids_update_title)
  moreover have "messages ?d1 = messages d" by (simp add: update_title_def)
  ultimately show ?thesis
    using own unfolding d' messages_owned_def
    by (auto simp: messages_insert_messages chats_insert_messages delete_messages_def
        simp del: set_map dest: chatId_message_rows)
qed

subsection \<open>Ownership\<close>

text \<open>
  C1. Where the chat id exists under another user, \<^verbatim>\<open>upsertChat\<close> does not raise the
  ownership error. At the store holding alice's chat \<open>c1\<close>, the call for bob with the
  same id goes to the create branch: with a unique key on \<^verbatim>\<open>chats.id\<close> the insert of
  the chat row is rejected by the database, without one a second chat row and bob's
  message row are added.
\<close>

theorem upsertChat_other_owner_takes_create_branch:
  "upsertChat True db_alice ''bob'' ''c1'' ''Hello...'' [msg_hello] = Inl UniqueViolation
   \<and> upsertChat False db_alice ''bob'' ''c1'' ''Hello...'' [msg_hello] = Inr db_alice_bob"
  by (simp add: store_defs db_alice_def db_alice_bob_def msg_hello_def)

text \<open>
  C2, as stated, fails: a call of \<^verbatim>\<open>upsertChat\<close> for a chat id held by another user can
  be told from a call for an id that does not exist. With a unique key the first is
  rejected and the second succeeds; without one both succeed, and \<^verbatim>\<open>getChat\<close>
  afterwards also returns the other user's message in the first case.
\<close>

theorem not_owned_upsert_observable_counterexample:
  "upsertChat True db_alice ''bob'' ''c1'' ''Hello...'' [msg_hello] = Inl UniqueViolation
   \<and> upsertChat True db_empty ''bob'' ''c1'' ''Hello...'' [msg_hello] = Inr db_bob
   \<and> upsertChat False db_alice ''bob'' ''c1'' ''Hello...'' [msg_hello] = Inr db_alice_bob
   \<and> upsertChat False db_empty ''bob'' ''c1'' ''Hello...'' [msg_hello] = Inr db_bob
   \<and> getChat db_alice_bob ''bob'' ''c1'' \<noteq> getChat db_bob ''bob'' ''c1''"
  by (simp add: store_defs db_empty_def db_alice_def db_bob_def db_alice_bob_def msg_hello_def)

text \<open>
  C2, amended. For a chat id of which the requesting user owns no row, \<^verbatim>\<open>getChat\<close>
  returns \<^verbatim>\<open>null\<close>, whether the id exists under another user or not at all: on any
  two such stores its results are the same.
\<close>

theorem getChat_not_owned_indistinguishable:
  assumes "\<forall>r \<in> set (chats d1). id_chat r = cid \<longrightarrow> userId r \<noteq> uid"
    and "\<forall>r \<in> set (chats d2). id_chat r = cid \<longrightarrow> userId r \<noteq> uid"
  shows "getChat d1 uid cid = None \<and> getChat d1 uid cid = getChat d2 uid cid"
proof -
  have none: "getChat d uid cid = None"
    if "\<forall>r \<in> set (chats d). id_chat r = cid \<longrightarrow> userId r \<noteq> uid" for d
  proof -
    from that have "findFirst (\<lambda>r. id_chat r = cid \<and> userId r = uid) (chats d) = None"
      by (auto simp: findFirst_None)
    then show ?thesis by (simp add: getChat_def)
  qed
  from none [OF assms(1)] none [OF assms(2)] show ?thesis by simp
qed

text \<open>C2, amended, for bob at alice's store (the id is hers) and at the empty store.\<close>

theorem getChat_not_owned_indistinguishable_witness:
  "(\<exists>r \<in> set (chats db_alice). id_chat r = ''c1'' \<and> userId r = ''alice'')
   \<and> \<not> (\<exists>r \<in> set (chats db_alice). id_chat r = ''c1'' \<and> userId r = ''bob'')
   \<and> chats db_empty = []
   \<and> getChat db_alice ''bob'' ''c1'' = None
   \<and> getChat db_alice ''bob'' ''c1'' = getChat db_empty ''bob'' ''c1''"
proof -
  have h1: "\<forall>r \<in> set (chats db_alice). id_chat r = ''c1'' \<longrightarrow> userId r \<noteq> ''bob''"
    by (simp add: db_alice_def)
  have h0: "\<forall>r \<in> set (chats db_empty). id_chat r = ''c1'' \<longrightarrow> userId r \<noteq> ''bob''"
    by (simp add: db_empty_def)
  have "\<exists>r \<in> set (chats db_alice). id_chat r = ''c1'' \<and> userId r = ''alice''"
    by (simp add: db_alice_def)
  moreover from h1 have "\<not> (\<exists>r \<in> set (chats db_alice). id_chat r = ''c1'' \<and> userId r = ''bob'')"
    by blast
  moreover have "chats db_empty = []" by (simp add: db_empty_def)
  ultimately show ?thesis
    using getChat_not_owned_indistinguishable [OF h1 h0] by blast
qed

subsection \<open>Replacing the messages of a chat\<close>

text \<open>
  C8. On a chat that exists and belongs to the caller, \<^verbatim>\<open>upsertChat\<close> succeeds; the rows
  of \<^verbatim>\<open>messages\<close> afterwards are the rows of the other chats, untouched, followed by one
  row per message of the list, the row at position \<open>k\<close> carrying the role and parts of
  the \<open>k\<close>-th message and \<open>order = k\<close>; and \<^verbatim>\<open>getChat\<close> on the result returns
  exactly these rows, in the order of the list.
\<close>

theorem upsertChat_existing_replaces_messages:
  assumes "\<exists>r \<in> set (chats d). id_chat r = cid \<and> userId r = uid"
  shows "\<exists>d' chat'. upsertChat pk d uid cid t msgs = Inr d'
           \<and> messages d' = filter (\<lambda>m. chatId m \<noteq> cid) (messages d) @ message_rows cid 0 msgs
           \<and> length (message_rows cid 0 msgs) = length msgs
           \<and> (\<forall>k < length msgs. message_rows cid 0 msgs ! k =
                 \<lparr>chatId = cid, row_role = role (msgs ! k), row_parts = parts (msgs ! k), order = k\<rparr>)
           \<and> getChat d' uid cid = Some (chat', message_rows cid 0 msgs)"
proof -
  let ?p = "\<lambda>r. id_chat r = cid \<and> userId r = uid"
  from assms obtain chat where chat: "findFirst ?p (chats d) = Some chat"
    by (cases "findFirst ?p (chats d)") (auto simp: findFirst_None)
  let ?d1 = "if title chat \<noteq> t then update_title d cid t else d"
  let ?d' = "insert_messages (delete_messages ?d1 cid) cid msgs"
  have up: "upsertChat pk d uid cid t msgs = Inr ?d'"
    by (rule upsertChat_replace [OF chat])
  have m1: "messages ?d1 = messages d" by (simp add: update_title_def)
  have msgs': "messages ?d' = filter (\<lambda>m. chatId m \<noteq> cid) (messages d) @ message_rows cid 0 msgs"
    by (simp add: messages_insert_messages delete_messages_def m1)
  have chats': "chats ?d' = chats ?d1"
    by (simp add: chats_insert_messages delete_messages_def)
  have found: "findFirst ?p (chats ?d') = Some (chat\<lparr>title := t\<rparr>)"
    unfolding chats' by (rule owned_after_replace [OF chat])
  have "filter (\<lambda>m. chatId m = cid) (messages ?d') = message_rows cid 0 msgs"
    unfolding msgs' by (simp add: filter_eq_message_rows)
  with found have get: "getChat ?d' uid cid = Some (chat\<lparr>title := t\<rparr>, message_rows cid 0 msgs)"
    by (simp add: getChat_def sort_message_rows)
  have nth: "\<forall>k < length msgs. message_rows cid 0 msgs ! k =
      \<lparr>chatId = cid, row_role = role (msgs ! k), row_parts = parts (msgs ! k), order = k\<rparr>"
    by (simp add: nth_message_rows)
  from up msgs' get nth length_message_rows show ?thesis by blast
qed

theorem upsertChat_existing_replaces_messages_witness:
  "(\<exists>r \<in> set (chats db_alice). id_chat r = ''c1'' \<and> userId r = ''alice'')
   \<and> (\<exists>d' chat'. upsertChat True db_alice ''alice'' ''c1'' ''Hello...'' [msg_hello, msg_answer] = Inr d'
           \<and> messages d' = filter (\<lambda>m. chatId m \<noteq> ''c1'') (messages db_alice)
                 @ message_rows ''c1'' 0 [msg_hello, msg_answer]
           \<and> length (message_rows ''c1'' 0 [msg_hello, msg_answer]) = length [msg_hello, msg_answer]
           \<and> (\<forall>k < length [msg_hello, msg_answer]. message_rows ''c1'' 0 [msg_hello, msg_answer] ! k =
                 \<lparr>chatId = ''c1'', row_role = role ([msg_hello, msg_answer] ! k),
                  row_parts = parts ([msg_hello, msg_answer] ! k), order = k\<rparr>)
           \<and> getChat d' ''alice'' ''c1'' = Some (chat', message_rows ''c1'' 0 [msg_hello, msg_answer]))"
proof -
  have h: "\<exists>r \<in> set (chats db_alice). id_chat r = ''c1'' \<and> userId r = ''alice''"
    by (simp add: db_alice_def)
  show ?thesis
    by (rule conjI [OF h upsertChat_existing_replaces_messages [OF h]])
qed

subsection \<open>Idempotence and the empty list\<close>

text \<open>
  C5. With \<^verbatim>\<open>chats.id\<close> a unique key, on a store in which every message row belongs
  to a chat row, calling \<^verbatim>\<open>upsertChat\<close> twice in succession with the same arguments
  gives the result of calling it once: the same store, or the same error. When the
  call returns, the chat read back has the given title and exactly one row per
  message of the list, in the order of the list.
\<close>

theorem upsertChat_idempotent:
  assumes "messages_owned d"
  shows "upsertChat_twice True d uid cid t msgs = upsertChat True d uid cid t msgs
     \<and> (\<forall>d1. upsertChat True d uid cid t msgs = Inr d1 \<longrightarrow>
          (\<exists>chat'. title chat' = t
             \<and> getChat d1 uid cid = Some (chat', message_rows cid 0 msgs)))"
proof (cases "findFirst (\<lambda>r. id_chat r = cid \<and> userId r = uid) (chats d)")
  case None
  let ?row = "\<lparr>id_chat = cid, userId = uid, title = t\<rparr>"
  let ?d0 = "d\<lparr>chats := chats d @ [?row]\<rparr>"
  show ?thesis
  proof (cases "cid \<in> set (map id_chat (chats d))")
    case True
    with None have "upsertChat True d uid cid t msgs = Inl UniqueViolation"
      by (simp add: upsertChat_def insert_chats_def)
    then show ?thesis by (simp add: upsertChat_twice_def)
  next
    case False
    with None have once: "upsertChat True d uid cid t msgs = Inr (insert_messages ?d0 cid msgs)"
      by (simp add: upsertChat_def insert_chats_def)
    from None
    have found: "findFirst (\<lambda>r. id_chat r = cid \<and> userId r = uid) (chats ?d0) = Some ?row"
      by (simp add: findFirst_append) (simp add: findFirst_def)
    from assms False have none: "\<forall>m \<in> set (messages ?d0). chatId m \<noteq> cid"
      by (auto simp: messages_owned_def)
    from upsertChat_again [OF found, of t True msgs] delete_messages_none [OF none]
    have "upsertChat True (insert_messages ?d0 cid msgs) uid cid t msgs
        = Inr (insert_messages ?d0 cid msgs)"
      by simp
    with once
    have twice: "upsertChat_twice True d uid cid t msgs = upsertChat True d uid cid t msgs"
      by (simp add: upsertChat_twice_def)
    from getChat_insert_messages [OF found none, of msgs] once twice
    show ?thesis by simp
  qed
next
  case (Some chat)
  let ?d0 = "delete_messages (if title chat \<noteq> t then update_title d cid t else d) cid"
  have once: "upsertChat True d uid cid t msgs = Inr (insert_messages ?d0 cid msgs)"
    by (rule upsertChat_replace [OF Some])
  from owned_after_replace [OF Some, of t]
  have found: "findFirst (\<lambda>r. id_chat r = cid \<and> userId r = uid) (chats ?d0)
      = Some (chat\<lparr>title := t\<rparr>)"
    by (simp add: delete_messages_def)
  have none: "\<forall>m \<in> set (messages ?d0). chatId m \<noteq> cid"
    by (simp add: delete_messages_def)
  from upsertChat_again [OF found, of t True msgs] delete_messages_none [OF none]
  have "upsertChat True (insert_messages ?d0 cid msgs) uid cid t msgs
      = Inr (insert_messages ?d0 cid msgs)"
    by simp
  with once
  have twice: "upsertChat_twice True d uid cid t msgs = upsertChat True d uid cid t msgs"
    by (simp add: upsertChat_twice_def)
  from getChat_insert_messages [OF found none, of msgs] once twice
  show ?thesis by simp
qed

text \<open>C5 at alice's store: the call returns, and twice is once.\<close>

theorem upsertChat_idempotent_witness:
  "messages_owned db_alice
   \<and> upsertChat_twice True db_alice ''alice'' ''c1'' ''Hello...'' [msg_hello, msg_answer]
       = upsertChat True db_alice ''alice'' ''c1'' ''Hello...'' [msg_hello, msg_answer]
   \<and> (\<exists>d1 chat'. upsertChat True db_alice ''alice'' ''c1'' ''Hello...'' [msg_hello, msg_answer] = Inr d1
          \<and> title chat' = ''Hello...''
          \<and> getChat d1 ''alice'' ''c1''
              = Some (chat', message_rows ''c1'' 0 [msg_hello, msg_answer]))"
proof -
  have h: "messages_owned db_alice"
    by (simp add: messages_owned_def db_alice_def)
  have ex: "\<exists>d1. upsertChat True db_alice ''alice'' ''c1'' ''Hello...'' [msg_hello, msg_answer] = Inr d1"
    by (simp add: store_defs db_alice_def)
  from h upsertChat_idempotent [OF h, of "''alice''" "''c1''" "''Hello...''" "[msg_hello, msg_answer]"] ex
  show ?thesis by blast
qed

text \<open>
  C10. \<^verbatim>\<open>upsertChat\<close> accepts an empty list of messages. For a chat id that no row of
  \<^verbatim>\<open>chats\<close> has, it adds the chat row and leaves \<^verbatim>\<open>messages\<close> as it was. For a chat
  of the caller, it returns a store from which all rows of that chat are gone from
  \<^verbatim>\<open>messages\<close>, and reading the chat back gives the new title and no messages.
\<close>

theorem upsertChat_empty_messages:
  "((\<forall>r \<in> set (chats d). id_chat r \<noteq> cid) \<longrightarrow>
      upsertChat pk d uid cid t [] =
        Inr (d\<lparr>chats := chats d @ [\<lparr>id_chat = cid, userId = uid, title = t\<rparr>]\<rparr>))
   \<and> ((\<exists>r \<in> set (chats d). id_chat r = cid \<and> userId r = uid) \<longrightarrow>
      (\<exists>d' chat'. upsertChat pk d uid cid t [] = Inr d'
         \<and> messages d' = filter (\<lambda>m. chatId m \<noteq> cid) (messages d)
         \<and> title chat' = t
         \<and> getChat d' uid cid = Some (chat', [])))"
proof (intro conjI impI)
  assume new: "\<forall>r \<in> set (chats d). id_chat r \<noteq> cid"
  then have "\<forall>r \<in> set (chats d). id_chat r = cid \<longrightarrow> userId r \<noteq> uid" by simp
  from upsertChat_create [OF this, of pk t "[]"] new
  show "upsertChat pk d uid cid t [] =
        Inr (d\<lparr>chats := chats d @ [\<lparr>id_chat = cid, userId = uid, title = t\<rparr>]\<rparr>)"
    by (auto simp: insert_chats_def insert_messages_def)
next
  let ?p = "\<lambda>r. id_chat r = cid \<and> userId r = uid"
  assume "\<exists>r \<in> set (chats d). id_chat r = cid \<and> userId r = uid"
  then obtain chat where chat: "findFirst ?p (chats d) = Some chat"
    by (cases "findFirst ?p (chats d)") (auto simp: findFirst_None)
  let ?d0 = "delete_messages (if title chat \<noteq> t then update_title d cid t else d) cid"
  have up: "upsertChat pk d uid cid t [] = Inr ?d0"
    using upsertChat_replace [OF chat, of pk t "[]"] by (simp add: insert_messages_def)
  have msgs: "messages ?d0 = filter (\<lambda>m. chatId m \<noteq> cid) (messages d)"
    by (simp add: delete_messages_def update_title_def)
  from owned_after_replace [OF chat, of t]
  have found: "findFirst ?p (chats ?d0) = Some (chat\<lparr>title := t\<rparr>)"
    by (simp add: delete_messages_def)
  have none: "\<forall>m \<in> set (messages ?d0). chatId m \<noteq> cid"
    by (simp add: delete_messages_def)
  from getChat_insert_messages [OF found none, of "[]"]
  have "getChat ?d0 uid cid = Some (chat\<lparr>title := t\<rparr>, [])"
    by (simp add: insert_messages_def)
  with up msgs show "\<exists>d' chat'. upsertChat pk d uid cid t [] = Inr d'
         \<and> messages d' = filter (\<lambda>m. chatId m \<noteq> cid) (messages d)
         \<and> title chat' = t
         \<and> getChat d' uid cid = Some (chat', [])"
    by (intro exI [of _ ?d0] exI [of _ "chat\<lparr>title := t\<rparr>"]) simp
qed

text \<open>C10 at the empty store (a new chat) and at alice's store (her own chat).\<close>

theorem upsertChat_empty_messages_witness:
  "chats db_empty = []
   \<and> upsertChat True db_empty ''bob'' ''c1'' ''Hello...'' [] =
        Inr \<lparr>chats = [\<lparr>id_chat = ''c1'', userId = ''bob'', title = ''Hello...''\<rparr>], messages = []\<rparr>
   \<and> (\<exists>r \<in> set (chats db_alice). id_chat r = ''c1'' \<and> userId r = ''alice'')
   \<and> (\<exists>d' chat'. upsertChat True db_alice ''alice'' ''c1'' ''New'' [] = Inr d'
         \<and> messages d' = []
         \<and> title chat' = ''New''
         \<and> getChat d' ''alice'' ''c1'' = Some (chat', []))"
proof -
  have h0: "\<forall>r \<in> set (chats db_empty). id_chat r \<noteq> ''c1''"
    by (simp add: db_empty_def)
  have h1: "\<exists>r \<in> set (chats db_alice). id_chat r = ''c1'' \<and> userId r = ''alice''"
    by (simp add: db_alice_def)
  from upsertChat_empty_messages [of db_empty "''c1''" True "''bob''" "''Hello...''"] h0
  have c0: "upsertChat True db_empty ''bob'' ''c1'' ''Hello...'' [] =
        Inr \<lparr>chats = [\<lparr>id_chat = ''c1'', userId = ''bob'', title = ''Hello...''\<rparr>], messages = []\<rparr>"
    by (simp add: db_empty_def)
  from upsertChat_empty_messages [of db_alice "''c1''" True "''alice''" "''New''"] h1
  have c1: "\<exists>d' chat'. upsertChat True db_alice ''alice'' ''c1'' ''New'' [] = Inr d'
         \<and> messages d' = []
         \<and> title chat' = ''New''
         \<and> getChat d' ''alice'' ''c1'' = Some (chat', [])"
    by (simp add: db_alice_def)
  have "chats db_empty = []" by (simp add: db_empty_def)
  with c0 h1 c1 show ?thesis by blast
qed

section \<open>Properties of the chat route\<close>

subsection \<open>A chat of another user\<close>

text \<open>
  C9, as stated, fails: a request with an empty list of messages is answered 400
  before the ownership of the chat is looked at, also when the chat belongs to
  another user.
\<close>

theorem POST_other_owner_empty_counterexample:
  "chats db_alice = [\<lparr>id_chat = ''c1'', userId = ''alice'', title = ''Old''\<rparr>]
   \<and> chatId_b body_other_empty = ''c1''
   \<and> isNewChat body_other_empty = False
   \<and> POST True model_hi (Some ''bob'') body_other_empty db_alice
       = (Inr (Status 400 ''No messages provided''), db_alice)"
  by (simp add: POST_def body_other_empty_def db_alice_def)

text \<open>
  C9, amended. For every request of a signed-in user with a non-empty list of
  messages and \<^verbatim>\<open>isNewChat = false\<close>, against a chat id that exists and of which the
  user owns no row, the handler returns status 404 and the store is unchanged; no
  stream is opened, so no later write is scheduled.
\<close>

theorem POST_other_owner_404:
  assumes "messages_b b \<noteq> []" and "\<not> isNewChat b"
    and "\<exists>r \<in> set (chats d). id_chat r = chatId_b b"
    and "\<forall>r \<in> set (chats d). id_chat r = chatId_b b \<longrightarrow> userId r \<noteq> uid"
  shows "POST pk model (Some uid) b d = (Inr (Status 404 ''Chat not found or unauthorized''), d)"
proof (cases "findFirst (\<lambda>r. id_chat r = chatId_b b) (chats d)")
  case None
  with assms(1,2) show ?thesis by (simp add: POST_def Let_def)
next
  case (Some chat)
  from findFirst_Some [OF Some] assms(4) have "userId chat \<noteq> uid" by simp
  with Some assms(1,2) show ?thesis by (simp add: POST_def Let_def)
qed

text \<open>C9, amended, for bob's request against alice's chat.\<close>

theorem POST_other_owner_404_witness:
  "messages_b body_other \<noteq> []
   \<and> \<not> isNewChat body_other
   \<and> (\<exists>r \<in> set (chats db_alice). id_chat r = chatId_b body_other)
   \<and> \<not> (\<exists>r \<in> set (chats db_alice). id_chat r = chatId_b body_other \<and> userId r = ''bob'')
   \<and> POST True model_hi (Some ''bob'') body_other db_alice
       = (Inr (Status 404 ''Chat not found or unauthorized''), db_alice)"
proof -
  have h1: "messages_b body_other \<noteq> []" by (simp add: body_other_def)
  have h2: "\<not> isNewChat body_other" by (simp add: body_other_def)
  have h3: "\<exists>r \<in> set (chats db_alice). id_chat r = chatId_b body_other"
    by (simp add: db_alice_def body_other_def)
  have h4: "\<forall>r \<in> set (chats db_alice). id_chat r = chatId_b body_other \<longrightarrow> userId r \<noteq> ''bob''"
    by (simp add: db_alice_def body_other_def)
  from h1 h2 h3 h4 POST_other_owner_404 [OF h1 h2 h3 h4, of True model_hi]
  show ?thesis by blast
qed

subsection \<open>The new-chat event\<close>

lemma execute_frames:
  "execute isNew cid result [] =
     (if isNew then [Data (NEW_CHAT_CREATED cid)] else []) @ map Part (stream_parts result)"
  by (simp add: execute_def writeData_def mergeIntoDataStream_def)

lemma no_event_in_parts: "filter is_new_chat_event (map Part ps) = []"
  by (induction ps) auto

lemma frames_of_POST:
  "frames_of (fst (POST pk model session b d)) = []
   \<or> frames_of (fst (POST pk model session b d))
        = execute (isNewChat b) (chatId_b b) (model (messages_b b)) []"
  by (auto simp: POST_def Let_def createDataStreamResponse_def
      split: option.splits sum.splits if_splits)

text \<open>
  C7. Among the frames of any response of the handler there is at most one new-chat
  event; there is one only if the request said \<^verbatim>\<open>isNewChat = true\<close>; and it carries
  the chat id of the request and has no part of the model's stream before it.
\<close>

theorem new_chat_event_once_first:
  "length (filter is_new_chat_event (frames_of (fst (POST pk model session b d)))) \<le> 1
   \<and> ((\<exists>f \<in> set (frames_of (fst (POST pk model session b d))). is_new_chat_event f)
        \<longrightarrow> isNewChat b)
   \<and> (\<forall>i < length (frames_of (fst (POST pk model session b d))).
         is_new_chat_event (frames_of (fst (POST pk model session b d)) ! i) \<longrightarrow>
           frames_of (fst (POST pk model session b d)) ! i = Data (NEW_CHAT_CREATED (chatId_b b))
           \<and> (\<forall>j < i. \<not> is_model_part (frames_of (fst (POST pk model session b d)) ! j)))"
proof -
  let ?fs = "frames_of (fst (POST pk model session b d))"
  let ?parts = "map Part (stream_parts (model (messages_b b)))"
  from frames_of_POST [of pk model session b d]
  consider "?fs = []" | "\<not> isNewChat b" "?fs = ?parts"
    | "isNewChat b" "?fs = Data (NEW_CHAT_CREATED (chatId_b b)) # ?parts"
    by (auto simp: execute_frames split: if_splits)
  then show ?thesis
  proof cases
    case 1
    then show ?thesis by simp
  next
    case 2
    have "\<forall>f \<in> set ?parts. \<not> is_new_chat_event f" by auto
    with 2 show ?thesis by (auto simp: no_event_in_parts)
  next
    case 3
    have np: "\<forall>f \<in> set ?parts. \<not> is_new_chat_event f" by auto
    have "\<And>i. i < length ?fs \<Longrightarrow> is_new_chat_event (?fs ! i) \<Longrightarrow> i = 0"
    proof (rule ccontr)
      fix i assume i: "i < length ?fs" "is_new_chat_event (?fs ! i)" "i \<noteq> 0"
      then obtain k where "i = Suc k" by (cases i) auto
      with i 3 have "k < length ?parts" "is_new_chat_event (?parts ! k)" by auto
      with np show False by (metis nth_mem)
    qed
    then have zero: "\<forall>i < length ?fs. is_new_chat_event (?fs ! i) \<longrightarrow> i = 0" by blast
    have count: "length (filter is_new_chat_event ?fs) \<le> 1"
      using 3 by (simp add: no_event_in_parts)
    have first: "?fs ! 0 = Data (NEW_CHAT_CREATED (chatId_b b))"
      using 3 by simp
    have "\<forall>i < length ?fs. is_new_chat_event (?fs ! i) \<longrightarrow>
           ?fs ! i = Data (NEW_CHAT_CREATED (chatId_b b)) \<and> (\<forall>j < i. \<not> is_model_part (?fs ! j))"
    proof (intro allI impI)
      fix i assume "i < length ?fs" "is_new_chat_event (?fs ! i)"
      with zero have "i = 0" by blast
      with first show "?fs ! i = Data (NEW_CHAT_CREATED (chatId_b b))
          \<and> (\<forall>j < i. \<not> is_model_part (?fs ! j))"
        by simp
    qed
    with count 3(1) show ?thesis by blast
  qed
qed

text \<open>
  C7 for bob's request that opens the new chat \<open>c2\<close>: the event is there, once, as the
  first frame, and \<^verbatim>\<open>isNewChat\<close> was set.
\<close>

theorem new_chat_event_once_first_witness:
  "frames_of (fst (POST True model_hi (Some ''bob'') body_new db_alice))
     = [Data (NEW_CHAT_CREATED ''c2''), Part ''Hi'', Part '' there'']
   \<and> (\<exists>f \<in> set (frames_of (fst (POST True model_hi (Some ''bob'') body_new db_alice))).
         is_new_chat_event f)
   \<and> isNewChat body_new
   \<and> length (filter is_new_chat_event
        (frames_of (fst (POST True model_hi (Some ''bob'') body_new db_alice)))) = 1"
proof -
  have fs: "frames_of (fst (POST True model_hi (Some ''bob'') body_new db_alice))
     = [Data (NEW_CHAT_CREATED ''c2''), Part ''Hi'', Part '' there'']"
    by (simp add: POST_def body_new_def store_defs db_alice_def model_hi_def Let_def
        createDataStreamResponse_def execute_frames)
  then have ex: "\<exists>f \<in> set (frames_of (fst (POST True model_hi (Some ''bob'') body_new db_alice))).
         is_new_chat_event f"
    by simp
  from new_chat_event_once_first [of True model_hi "Some ''bob''" body_new db_alice] ex
  have "isNewChat body_new" by blast
  with fs ex show ?thesis by simp
qed

subsection \<open>A failed write at the end of a turn\<close>

text \<open>
  C3. When the write of \<^verbatim>\<open>upsertChat\<close> at the end of a turn fails, the failure is
  logged and the frames already delivered stay as they are. In the route with
  \<^verbatim>\<open>isNewChat\<close> the rejected \<^verbatim>\<open>onFinish\<close> is logged by \<^verbatim>\<open>onError\<close> and one error frame
  follows the answer; in the day-1 route the failure is logged by the \<^verbatim>\<open>.catch\<close> of
  the write and the stream is not touched.
\<close>

theorem persistence_failure_logged_answer_delivered:
  "(msgs \<noteq> [] \<and>
      upsertChat pk (store ts) uid cid (take 50 (content (last msgs)) @ ''...'')
        (app msgs (response_messages result)) = Inl e \<longrightarrow>
      console (finish_turn pk app uid cid msgs result ts) = console ts @ [([], e)]
      \<and> stream (finish_turn pk app uid cid msgs result ts)
          = stream ts @ [ErrorText ''Oops, an error occurred!''])
   \<and> (upsertChat pk (store ts) uid cid (chatTitle msgs) (app msgs (response_messages result)) = Inl e \<longrightarrow>
      console (onFinish_day1 pk app uid cid msgs result ts)
        = console ts @ [(''Failed to save chat:'', e)]
      \<and> stream (onFinish_day1 pk app uid cid msgs result ts) = stream ts)"
  by (simp add: finish_turn_def onFinish_def onError_def onFinish_day1_def Let_def)

text \<open>
  C3 at the end of bob's turn on a store where the chat id is alice's: the write is
  rejected, the answer \<open>Hi there\<close> is on the stream, the failure is on the console.
\<close>

theorem persistence_failure_logged_answer_delivered_witness:
  "([msg_hello] \<noteq> [] \<and>
      upsertChat True (store turn_alice) ''bob'' ''c1'' (take 50 (content (last [msg_hello])) @ ''...'')
        ([msg_hello] @ response_messages (model_hi [msg_hello])) = Inl UniqueViolation)
   \<and> console (finish_turn True (@) ''bob'' ''c1'' [msg_hello] (model_hi [msg_hello]) turn_alice)
        = console turn_alice @ [([], UniqueViolation)]
   \<and> stream (finish_turn True (@) ''bob'' ''c1'' [msg_hello] (model_hi [msg_hello]) turn_alice)
        = [Part ''Hi'', Part '' there'', ErrorText ''Oops, an error occurred!'']
   \<and> upsertChat True (store turn_alice) ''bob'' ''c1'' (chatTitle [msg_hello])
        ([msg_hello] @ response_messages (model_hi [msg_hello])) = Inl UniqueViolation
   \<and> console (onFinish_day1 True (@) ''bob'' ''c1'' [msg_hello] (model_hi [msg_hello]) turn_alice)
        = console turn_alice @ [(''Failed to save chat:'', UniqueViolation)]
   \<and> stream (onFinish_day1 True (@) ''bob'' ''c1'' [msg_hello] (model_hi [msg_hello]) turn_alice)
        = [Part ''Hi'', Part '' there'']"
proof -
  have h1: "[msg_hello] \<noteq> [] \<and>
      upsertChat True (store turn_alice) ''bob'' ''c1'' (take 50 (content (last [msg_hello])) @ ''...'')
        ([msg_hello] @ response_messages (model_hi [msg_hello])) = Inl UniqueViolation"
    by (simp add: store_defs db_alice_def turn_alice_def model_hi_def)
  have h2: "upsertChat True (store turn_alice) ''bob'' ''c1'' (chatTitle [msg_hello])
        ([msg_hello] @ response_messages (model_hi [msg_hello])) = Inl UniqueViolation"
    by (simp add: store_defs db_alice_def msg_hello_def turn_alice_def model_hi_def chatTitle_def)
  have s: "stream turn_alice = [Part ''Hi'', Part '' there'']"
    by (simp add: turn_alice_def)
  from persistence_failure_logged_answer_delivered
    [of "[msg_hello]" True turn_alice "''bob''" "''c1''" "(@)" "model_hi [msg_hello]" UniqueViolation]
    h1 h2 s
  show ?thesis by simp
qed

section \<open>Properties of the tools\<close>

subsection \<open>scrapePages\<close>

lemma results_bulk: "results (bulkCrawlWebsites c urls) = map (\<lambda>u. (u, c u)) urls"
  by (simp add: bulkCrawlWebsites_def Let_def)

lemma success_bulk:
  "success (bulkCrawlWebsites c urls) \<longleftrightarrow> (\<forall>u \<in> set urls. crawl_success (c u))"
  by (simp add: bulkCrawlWebsites_def Let_def list_all_iff)

lemma filter_all_length: "length (filter P xs) < length xs \<longleftrightarrow> (\<exists>x \<in> set xs. \<not> P x)"
proof -
  have "length (filter P xs) = length xs \<longleftrightarrow> (\<forall>x \<in> set xs. P x)"
    by (metis filter_id_conv length_filter_less less_irrefl)
  moreover have "length (filter P xs) \<le> length xs" by simp
  ultimately show ?thesis by (metis le_neq_implies_less less_irrefl)
qed

text \<open>
  C4. For \<open>N\<close> URLs the tool returns \<open>N\<close> outcomes, one per URL in the order given, each
  with the success of its own fetch, whether or not other fetches failed. The overall
  \<^verbatim>\<open>success\<close> of the crawl is false, and the tool's result carries an \<^verbatim>\<open>error\<close>, exactly
  when the number \<open>M\<close> of successful fetches is below \<open>N\<close>.
\<close>

theorem scrapePages_all_outcomes:
  "length (results_o (scrapePages c urls)) = length urls
   \<and> map url (results_o (scrapePages c urls)) = urls
   \<and> map success_s (results_o (scrapePages c urls)) = map (\<lambda>u. crawl_success (c u)) urls
   \<and> length (results (bulkCrawlWebsites c urls)) = length urls
   \<and> (success (bulkCrawlWebsites c urls) = False
        \<longleftrightarrow> length (filter (\<lambda>u. crawl_success (c u)) urls) < length urls)
   \<and> (error_o (scrapePages c urls) \<noteq> None
        \<longleftrightarrow> length (filter (\<lambda>u. crawl_success (c u)) urls) < length urls)"
proof -
  have a: "map url (results_o (scrapePages c urls)) = urls"
    by (simp add: scrapePages_def Let_def results_bulk comp_def)
  have b: "map success_s (results_o (scrapePages c urls)) = map (\<lambda>u. crawl_success (c u)) urls"
    by (simp add: scrapePages_def Let_def results_bulk comp_def)
  from a have l: "length (results_o (scrapePages c urls)) = length urls"
    by (metis length_map)
  have s: "success (bulkCrawlWebsites c urls) = False
        \<longleftrightarrow> length (filter (\<lambda>u. crawl_success (c u)) urls) < length urls"
    by (simp add: success_bulk filter_all_length)
  have "error_o (scrapePages c urls) \<noteq> None \<longleftrightarrow> \<not> success (bulkCrawlWebsites c urls)"
    by (simp add: scrapePages_def Let_def) (simp add: bulkCrawlWebsites_def Let_def)
  with s have e: "error_o (scrapePages c urls) \<noteq> None
        \<longleftrightarrow> length (filter (\<lambda>u. crawl_success (c u)) urls) < length urls"
    by simp
  from a b l s e show ?thesis by (simp add: results_bulk)
qed

text \<open>C4 for one page that loads and one that times out: two outcomes, overall failure.\<close>

theorem scrapePages_all_outcomes_witness:
  "scrapePages crawl_sample [''https://valid.example'', ''https://timeout.example'']
     = \<lparr>error_o = Some ''Failed to crawl some websites'',
        results_o = [\<lparr>url = ''https://valid.example'', success_s = True, data = Some ''# Valid''\<rparr>,
                     \<lparr>url = ''https://timeout.example'', success_s = False, data = Some ''timeout''\<rparr>]\<rparr>
   \<and> length (results_o (scrapePages crawl_sample [''https://valid.example'', ''https://timeout.example''])) = 2
   \<and> success (bulkCrawlWebsites crawl_sample [''https://valid.example'', ''https://timeout.example'']) = False"
proof -
  have v: "scrapePages crawl_sample [''https://valid.example'', ''https://timeout.example'']
     = \<lparr>error_o = Some ''Failed to crawl some websites'',
        results_o = [\<lparr>url = ''https://valid.example'', success_s = True, data = Some ''# Valid''\<rparr>,
                     \<lparr>url = ''https://timeout.example'', success_s = False, data = Some ''timeout''\<rparr>]\<rparr>"
    by (simp add: scrapePages_def bulkCrawlWebsites_def crawl_sample_def Let_def)
  have m: "length (filter (\<lambda>u. crawl_success (crawl_sample u))
      [''https://valid.example'', ''https://timeout.example'']) < length [''https://valid.example'', ''https://timeout.example'']"
    by (simp add: crawl_sample_def)
  from scrapePages_all_outcomes [of crawl_sample "[''https://valid.example'', ''https://timeout.example'']"] m
  have "length (results_o (scrapePages crawl_sample [''https://valid.example'', ''https://timeout.example''])) = 2
    \<and> success (bulkCrawlWebsites crawl_sample [''https://valid.example'', ''https://timeout.example'']) = False"
    by simp
  with v show ?thesis by simp
qed

subsection \<open>The step ceiling\<close>

lemma streamText_steps: "snd (streamText n model tools ctx) \<le> n"
proof (induction n arbitrary: ctx)
  case 0
  then show ?case by simp
next
  case (Suc n)
  show ?case
  proof (cases "model ctx")
    case (FinalText answer)
    then show ?thesis by simp
  next
    case (ToolCalls sofar calls)
    from Suc [of "tools ctx calls"] ToolCalls show ?thesis
      by (auto split: prod.splits)
  qed
qed

lemma streamText_at_least_one: "0 < n \<Longrightarrow> 1 \<le> snd (streamText n model tools ctx)"
  by (cases n) (auto split: step.splits prod.splits)

lemma streamText_always_tools:
  assumes "\<forall>c. \<exists>sofar calls. model c = ToolCalls sofar calls"
  shows "snd (streamText n model tools ctx) = n"
proof (induction n arbitrary: ctx)
  case 0
  then show ?case by simp
next
  case (Suc n)
  from assms obtain sofar calls where m: "model ctx = ToolCalls sofar calls" by blast
  from Suc [of "tools ctx calls"] m show ?case
    by (auto split: prod.splits)
qed

text \<open>
  C6. With the ceiling \<^verbatim>\<open>maxSteps = 10\<close> of the route, the loop returns a text after at
  least one and at most ten invocations of the model, whatever the model and the
  tools do; and when the model requests tool calls at every step, it returns a text
  after exactly ten invocations.
\<close>

theorem streamText_within_step_ceiling:
  "(\<exists>answer k. streamText maxSteps model tools ctx = (answer, k) \<and> 1 \<le> k \<and> k \<le> 10)
   \<and> ((\<forall>c. \<exists>sofar calls. model c = ToolCalls sofar calls) \<longrightarrow>
        (\<exists>answer. streamText maxSteps model tools ctx = (answer, 10)))"
proof -
  obtain answer k where r: "streamText maxSteps model tools ctx = (answer, k)"
    by (cases "streamText maxSteps model tools ctx")
  from streamText_steps [of maxSteps model tools ctx] r have "k \<le> 10"
    by (simp add: maxSteps_def)
  moreover from streamText_at_least_one [of maxSteps model tools ctx] r have "1 \<le> k"
    by (simp add: maxSteps_def)
  moreover have "(\<forall>c. \<exists>sofar calls. model c = ToolCalls sofar calls) \<Longrightarrow> k = 10"
    using streamText_always_tools [of model maxSteps tools ctx] r
    by (simp add: maxSteps_def)
  ultimately show ?thesis using r by auto
qed

text \<open>
  C6 for a model that always asks for a tool call: ten invocations, and the partial
  output of the tenth is the text returned.
\<close>

theorem streamText_within_step_ceiling_witness:
  "(\<forall>c. \<exists>sofar calls. model_always_tools c = ToolCalls sofar calls)
   \<and> streamText maxSteps model_always_tools tools_count 0 = (''xxxxxxxxx'', 10)"
proof -
  have h: "\<forall>c. \<exists>sofar calls. model_always_tools c = ToolCalls sofar calls" by simp
  have v: "streamText maxSteps model_always_tools tools_count 0 = (''xxxxxxxxx'', 10)"
    by (simp add: maxSteps_def eval_nat_numeral)
  from streamText_within_step_ceiling [of model_always_tools tools_count 0] h v
  show ?thesis by simp
qed

end
